theory Spec2Isabelle
  imports Main
begin

section \<open>Data model of the task library (src/proj.c)\<close>

text \<open>
  The embedding covers the scheduler, the task lifecycle and the mutex. The handler of
  \<^verbatim>\<open>SIGALRM\<close> copies machine registers around a call of \<^verbatim>\<open>switchTasks\<close> at a moment the
  program does not choose; it is not embedded, and neither are the demonstration tasks of
  \<^verbatim>\<open>main\<close>. A scheduling point is a call of \<^verbatim>\<open>switchTasks\<close> or \<^verbatim>\<open>schedule\<close>; the
  section on runs lets the handler act between two calls of the library.
\<close>

text \<open>
  The enum \<^verbatim>\<open>taskState_t\<close>, in the order of the source (\<^verbatim>\<open>ALLOC = 0\<close> is what
  zeroed memory holds).
\<close>

datatype taskState_t = ALLOC | READY | RUNNING | BLOCKED | ZOMBIE

text \<open>
  Addresses. A \<^verbatim>\<open>taskNode_t *\<close> is either the address of the static sentinel
  \<^verbatim>\<open>tSchedListHead\<close> or the address of a node obtained from \<^verbatim>\<open>calloc\<close>; the null
  pointer is \<open>None\<close> of the option type. A \<^verbatim>\<open>taskList_t *\<close> is either the address of the
  \<^verbatim>\<open>taskList\<close> member embedded in a mutex or the address of a \<^verbatim>\<open>myNode\<close> local of some
  activation of \<^verbatim>\<open>lockMutex\<close>. A \<^verbatim>\<open>ucontext_t *\<close> is the address of the static
  \<^verbatim>\<open>cleanUpCtx\<close> or of the \<^verbatim>\<open>context\<close> member of a task node.
\<close>

datatype taskRef = SchedHead | Task nat

datatype listRef = MutexList nat | StackNode nat

datatype ctxRef = CleanUpCtx | TaskCtx taskRef

datatype funcRef = CleanUpFunc | UserFunc nat

text \<open>
  The part of \<^verbatim>\<open>ucontext_t\<close> the library touches: the stack, the successor context, the
  saved signal mask (only \<^verbatim>\<open>SIGALRM\<close> matters) and the machine context, which is either an
  opaque register snapshot or the call installed by \<^verbatim>\<open>makecontext\<close>.
\<close>

datatype mcontext = Regs nat | Call funcRef nat "int list"

record ucontext_t =
  ss_sp :: "nat option"
  ss_size :: nat
  uc_link :: "ctxRef option"
  uc_sigmask :: bool
  uc_mcontext :: mcontext

text \<open>
  \<^verbatim>\<open>taskNode_t\<close> (fields \<^verbatim>\<open>context\<close>, \<^verbatim>\<open>tState\<close>, \<^verbatim>\<open>next\<close>, \<^verbatim>\<open>prev\<close>), \<^verbatim>\<open>taskList_t\<close> (fields
  \<^verbatim>\<open>task\<close>, \<^verbatim>\<open>next\<close>, \<^verbatim>\<open>prev\<close>) and \<^verbatim>\<open>myMutex_t\<close> (fields \<^verbatim>\<open>value\<close>, \<^verbatim>\<open>lockedBy\<close>; its
  \<^verbatim>\<open>taskList\<close> member lives in the node store at \<open>MutexList m\<close>). Field names that are
  Isabelle keywords or would clash carry a one-letter prefix.
\<close>

record taskNode_t =
  tcontext :: ucontext_t
  tState :: taskState_t
  tnext :: "taskRef option"
  tprev :: "taskRef option"

record taskList_t =
  task :: "taskRef option"
  lnext :: "listRef option"
  lprev :: "listRef option"

record myMutex_t =
  mvalue :: int
  lockedBy :: "taskRef option"

text \<open>
  The state of the process: the memory holding task nodes, wait-list nodes and mutexes, the
  globals \<^verbatim>\<open>currTask\<close>, \<^verbatim>\<open>mainTask\<close> and \<^verbatim>\<open>cleanUpCtx\<close>, whether \<^verbatim>\<open>SIGALRM\<close> is masked,
  the live machine context, and the log of what the C library did so far (most recent
  first): the calls to \<^verbatim>\<open>swapcontext\<close> and \<^verbatim>\<open>calloc\<close> (a stack is logged with its size),
  and the returns of entry routines into the trampoline that \<^verbatim>\<open>makecontext\<close> installed.
  \<open>liveNodes\<close> holds the addresses of the \<^verbatim>\<open>myNode\<close> locals whose activation of
  \<^verbatim>\<open>lockMutex\<close> has not returned: \<^verbatim>\<open>myNode\<close> is automatic storage, and the lifetime of one
  ends with the block that declares it.
\<close>

datatype libcall = Swapcontext ctxRef ctxRef | CallocNode | CallocStack nat | EntryReturn taskRef

record sched =
  tasks :: "taskRef \<Rightarrow> taskNode_t"
  currTask :: "taskRef option"
  mainTask :: "taskRef option"
  cleanUpCtx :: ucontext_t
  nodes :: "listRef \<Rightarrow> taskList_t"
  liveNodes :: "listRef set"
  mutexes :: "nat \<Rightarrow> myMutex_t"
  sigBlocked :: bool
  cpu :: mcontext
  calls :: "libcall list"

text \<open>
  A call either returns a value or faults. It faults when it dereferences a null pointer,
  when it reads or writes a \<^verbatim>\<open>myNode\<close> whose lifetime has ended (undefined in C; the
  model takes it as a fault), or when \<^verbatim>\<open>makecontext\<close> is given a context without a stack.
  Every iteration that need not terminate is a partial function into \<open>option\<close>, where
  \<open>None\<close> stands for a call that never returns.
\<close>

datatype 'a outcome = Ret 'a | Segv

definition andThen :: "'a outcome option \<Rightarrow> ('a \<Rightarrow> 'b outcome option) \<Rightarrow> 'b outcome option" where
  "andThen m f = (case m of None \<Rightarrow> None | Some Segv \<Rightarrow> Some Segv | Some (Ret x) \<Rightarrow> f x)"

section \<open>Signal masking\<close>

definition blockSched :: "sched \<Rightarrow> sched" where
  "blockSched s = s\<lparr>sigBlocked := True\<rparr>"

definition unblockSched :: "sched \<Rightarrow> sched" where
  "unblockSched s = s\<lparr>sigBlocked := False\<rparr>"

section \<open>The Ready List\<close>

definition setTState :: "sched \<Rightarrow> taskRef \<Rightarrow> taskState_t \<Rightarrow> sched" where
  "setTState s t st = s\<lparr>tasks := (tasks s)(t := (tasks s t)\<lparr>tState := st\<rparr>)\<rparr>"


definition listAdd :: "sched \<Rightarrow> taskRef \<Rightarrow> taskRef \<Rightarrow> sched outcome" where
  "listAdd s head node =
     (case tprev (tasks s head) of
        None \<Rightarrow> Segv
      | Some p \<Rightarrow>
          let h1 = (tasks s)(p := (tasks s p)\<lparr>tnext := Some node\<rparr>);
              h2 = h1(node := (h1 node)\<lparr>tprev := tprev (h1 head)\<rparr>);
              h3 = h2(node := (h2 node)\<lparr>tnext := Some head\<rparr>);
              h4 = h3(head := (h3 head)\<lparr>tprev := Some node\<rparr>)
          in Ret (s\<lparr>tasks := h4\<rparr>))"

definition listRemove :: "sched \<Rightarrow> taskRef \<Rightarrow> taskRef option \<Rightarrow> sched outcome" where
  "listRemove s head node =
     (if Some head \<noteq> node then
        (case node of
           None \<Rightarrow> Segv
         | Some n \<Rightarrow>
             (case tnext (tasks s n) of
                None \<Rightarrow> Segv
              | Some nx \<Rightarrow>
                  let h1 = (tasks s)(nx := (tasks s nx)\<lparr>tprev := tprev (tasks s n)\<rparr>)
                  in (case tprev (h1 n) of
                        None \<Rightarrow> Segv
                      | Some pv \<Rightarrow> Ret (s\<lparr>tasks := h1(pv := (h1 pv)\<lparr>tnext := tnext (h1 n)\<rparr>)\<rparr>))))
      else Ret s)"

text \<open>
  \<^verbatim>\<open>listGetNext\<close>: \<^verbatim>\<open>nextNode = node->next; while (nextNode == head) nextNode = nextNode->next;\<close>
\<close>

partial_function (option) listGetNext_loop ::
  "(taskRef \<Rightarrow> taskNode_t) \<Rightarrow> taskRef \<Rightarrow> taskRef option \<Rightarrow> taskRef option outcome option" where
  "listGetNext_loop h head nextNode =
     (if nextNode = Some head then listGetNext_loop h head (tnext (h head))
      else Some (Ret nextNode))"

definition listGetNext ::
  "(taskRef \<Rightarrow> taskNode_t) \<Rightarrow> taskRef \<Rightarrow> taskRef option \<Rightarrow> taskRef option outcome option" where
  "listGetNext h head node =
     (case node of None \<Rightarrow> Some Segv | Some n \<Rightarrow> listGetNext_loop h head (tnext (h n)))"

section \<open>The scheduler\<close>

definition runnable :: "(taskRef \<Rightarrow> taskNode_t) \<Rightarrow> taskRef \<Rightarrow> bool" where
  "runnable h t = (tState (h t) = READY \<or> tState (h t) = RUNNING)"

text \<open>
  \<^verbatim>\<open>getNextTask\<close>: \<^verbatim>\<open>do { nextTask = listGetNext(&tSchedListHead, nextTask); }
  while (nextTask->tState != READY && nextTask->tState != RUNNING);\<close>
\<close>

partial_function (option) getNextTask_loop ::
  "(taskRef \<Rightarrow> taskNode_t) \<Rightarrow> taskRef option \<Rightarrow> taskRef outcome option" where
  "getNextTask_loop h nextTask =
     (case listGetNext h SchedHead nextTask of
        None \<Rightarrow> None
      | Some Segv \<Rightarrow> Some Segv
      | Some (Ret None) \<Rightarrow> Some Segv
      | Some (Ret (Some t)) \<Rightarrow>
          if tState (h t) \<noteq> READY \<and> tState (h t) \<noteq> RUNNING then getNextTask_loop h (Some t)
          else Some (Ret t))"

definition getNextTask :: "sched \<Rightarrow> taskRef outcome option" where
  "getNextTask s =
     getNextTask_loop (tasks s)
       (if currTask s = None then Some SchedHead else currTask s)"

definition switchTasks :: "sched \<Rightarrow> (sched \<times> taskRef) outcome option" where
  "switchTasks s =
     (let oldTask = currTask s in
      andThen (getNextTask s) (\<lambda>nt.
        let s1 = s\<lparr>currTask := Some nt\<rparr> in
        (case oldTask of
           None \<Rightarrow> Some Segv
         | Some ot \<Rightarrow>
             let s2 = setTState s1 ot READY;
                 s3 = setTState s2 nt RUNNING
             in Some (Ret (s3, ot)))))"

section \<open>Execution contexts\<close>

definition getCtx :: "sched \<Rightarrow> ctxRef \<Rightarrow> ucontext_t" where
  "getCtx s c = (case c of CleanUpCtx \<Rightarrow> cleanUpCtx s | TaskCtx t \<Rightarrow> tcontext (tasks s t))"

definition putCtx :: "sched \<Rightarrow> ctxRef \<Rightarrow> ucontext_t \<Rightarrow> sched" where
  "putCtx s c u =
     (case c of
        CleanUpCtx \<Rightarrow> s\<lparr>cleanUpCtx := u\<rparr>
      | TaskCtx t \<Rightarrow> s\<lparr>tasks := (tasks s)(t := (tasks s t)\<lparr>tcontext := u\<rparr>)\<rparr>)"

text \<open>
  \<^verbatim>\<open>getcontext(ucp)\<close> stores the live machine context and signal mask in \<^verbatim>\<open>*ucp\<close>;
  \<^verbatim>\<open>swapcontext(oucp, ucp)\<close> does the same for \<^verbatim>\<open>*oucp\<close> and then makes \<^verbatim>\<open>*ucp\<close> the live
  one.
\<close>

definition getcontext :: "sched \<Rightarrow> ctxRef \<Rightarrow> sched" where
  "getcontext s c = putCtx s c ((getCtx s c)\<lparr>uc_sigmask := sigBlocked s, uc_mcontext := cpu s\<rparr>)"

definition swapcontext :: "sched \<Rightarrow> ctxRef \<Rightarrow> ctxRef \<Rightarrow> sched" where
  "swapcontext s oucp ucp =
     (let s1 = getcontext s oucp;
          u = getCtx s1 ucp
      in s1\<lparr>sigBlocked := uc_sigmask u, cpu := uc_mcontext u,
            calls := Swapcontext oucp ucp # calls s1\<rparr>)"

text \<open>
  \<^verbatim>\<open>makecontext(ucp, func, argc, ...)\<close> writes the first frame at the top of the stack of
  \<^verbatim>\<open>*ucp\<close>; with the null stack that a failed \<^verbatim>\<open>calloc\<close> leaves there, that write faults.
\<close>

definition makecontext :: "sched \<Rightarrow> ctxRef \<Rightarrow> funcRef \<Rightarrow> nat \<Rightarrow> int list \<Rightarrow> sched outcome" where
  "makecontext s c func argc args =
     (case ss_sp (getCtx s c) of
        None \<Rightarrow> Segv
      | Some sp \<Rightarrow> Ret (putCtx s c ((getCtx s c)\<lparr>uc_mcontext := Call func argc args\<rparr>)))"

definition schedule :: "sched \<Rightarrow> sched outcome option" where
  "schedule s =
     andThen (switchTasks s) (\<lambda>(s1, oldTask).
       (case currTask s1 of
          None \<Rightarrow> Some Segv
        | Some ct \<Rightarrow> Some (Ret (swapcontext s1 (TaskCtx oldTask) (TaskCtx ct)))))"

section \<open>Task lifecycle\<close>

text \<open>
  The zeroed node \<^verbatim>\<open>calloc\<close> returns, and \<^verbatim>\<open>createTask\<close>. The address \<^verbatim>\<open>calloc\<close> hands out
  (or its failure) is a parameter.
\<close>

definition zero_ctx :: ucontext_t where
  "zero_ctx = \<lparr>ss_sp = None, ss_size = 0, uc_link = None, uc_sigmask = False, uc_mcontext = Regs 0\<rparr>"

definition zero_task :: taskNode_t where
  "zero_task = \<lparr>tcontext = zero_ctx, tState = ALLOC, tnext = None, tprev = None\<rparr>"

definition calloc_node :: "sched \<Rightarrow> nat option \<Rightarrow> sched" where
  "calloc_node s a =
     (let s1 = s\<lparr>calls := CallocNode # calls s\<rparr>
      in case a of None \<Rightarrow> s1 | Some n \<Rightarrow> s1\<lparr>tasks := (tasks s1)(Task n := zero_task)\<rparr>)"

definition calloc_stack :: "sched \<Rightarrow> sched" where
  "calloc_stack s = s\<lparr>calls := CallocStack 16384 # calls s\<rparr>"

definition createTask :: "sched \<Rightarrow> nat option \<Rightarrow> sched \<times> taskRef option" where
  "createTask s a =
     (let s1 = calloc_node s a
      in case a of
           None \<Rightarrow> (s1, None)
         | Some n \<Rightarrow> (setTState s1 (Task n) ALLOC, Some (Task n)))"

text \<open>
  The macro \<^verbatim>\<open>initTask(newTask, func, argc, ...)\<close>; \<open>stk\<close> is what the \<^verbatim>\<open>calloc\<close> of the
  stack returns.
\<close>

definition initTask ::
  "sched \<Rightarrow> taskRef option \<Rightarrow> funcRef \<Rightarrow> nat \<Rightarrow> int list \<Rightarrow> nat option \<Rightarrow> sched outcome option" where
  "initTask s newTask func argc args stk =
     (case newTask of
        None \<Rightarrow> Some (Ret s)
      | Some t \<Rightarrow>
          if tState (tasks s t) \<noteq> ALLOC then Some (Ret s)
          else
            let s1 = getcontext s (TaskCtx t);
                s2 = calloc_stack s1;
                s3 = putCtx s2 (TaskCtx t) ((getCtx s2 (TaskCtx t))\<lparr>ss_sp := stk\<rparr>);
                s4 = putCtx s3 (TaskCtx t) ((getCtx s3 (TaskCtx t))\<lparr>ss_size := 16384\<rparr>);
                s5 = putCtx s4 (TaskCtx t) ((getCtx s4 (TaskCtx t))\<lparr>uc_link := Some CleanUpCtx\<rparr>)
            in (case makecontext s5 (TaskCtx t) func argc args of
                  Segv \<Rightarrow> Some Segv
                | Ret s6 \<Rightarrow>
                    (case listAdd (setTState s6 t READY) SchedHead t of
                       Segv \<Rightarrow> Some Segv
                     | Ret s8 \<Rightarrow> schedule s8)))"


text \<open>
  One turn of the \<^verbatim>\<open>while (1)\<close> loop of \<^verbatim>\<open>cleanUpFunc\<close>, which runs each time the entry
  routine of the current task returns.
\<close>

definition cleanUpFunc :: "sched \<Rightarrow> sched outcome option" where
  "cleanUpFunc s =
     (case listRemove s SchedHead (currTask s) of
        Segv \<Rightarrow> Some Segv
      | Ret s1 \<Rightarrow>
          (case currTask s1 of
             None \<Rightarrow> Some Segv
           | Some ct \<Rightarrow>
               let s2 = setTState s1 ct ZOMBIE;
                   s3 = s2\<lparr>currTask := None\<rparr>
               in andThen (getNextTask s3) (\<lambda>nt.
                    Some (Ret (swapcontext (s3\<lparr>currTask := Some nt\<rparr>) CleanUpCtx (TaskCtx nt))))))"

text \<open>
  The entry routine of the current task returns: the trampoline activates the context that
  \<^verbatim>\<open>uc_link\<close> named when \<^verbatim>\<open>makecontext\<close> was called, which for a task started by
  \<^verbatim>\<open>initTask\<close> is \<^verbatim>\<open>cleanUpCtx\<close>, and \<^verbatim>\<open>cleanUpFunc\<close> runs its next turn.
\<close>

definition taskReturns :: "sched \<Rightarrow> sched outcome option" where
  "taskReturns s =
     (case currTask s of
        None \<Rightarrow> Some Segv
      | Some ct \<Rightarrow> cleanUpFunc (s\<lparr>calls := EntryReturn ct # calls s\<rparr>))"

text \<open>
  \<^verbatim>\<open>taskJoin\<close>: \<^verbatim>\<open>if (tWait) while (tWait->tState != ZOMBIE) schedule();\<close>  The call to
  \<^verbatim>\<open>schedule\<close> comes back to the caller only when the caller is switched in again;
  \<open>resume\<close> maps the state right after the caller was switched out to the state in which it
  is switched in again (\<open>None\<close> when that never happens).
\<close>

partial_function (option) taskJoin_loop ::
  "(sched \<Rightarrow> sched option) \<Rightarrow> sched \<Rightarrow> taskRef \<Rightarrow> sched outcome option" where
  "taskJoin_loop resume s tWait =
     (if tState (tasks s tWait) \<noteq> ZOMBIE then
        (case schedule s of
           None \<Rightarrow> None
         | Some Segv \<Rightarrow> Some Segv
         | Some (Ret s1) \<Rightarrow>
             (case resume s1 of None \<Rightarrow> None | Some s2 \<Rightarrow> taskJoin_loop resume s2 tWait))
      else Some (Ret s))"

definition taskJoin ::
  "(sched \<Rightarrow> sched option) \<Rightarrow> sched \<Rightarrow> taskRef option \<Rightarrow> sched outcome option" where
  "taskJoin resume s tWait =
     (case tWait of None \<Rightarrow> Some (Ret s) | Some t \<Rightarrow> taskJoin_loop resume s t)"

section \<open>The mutex\<close>

definition initMyMutex :: "sched \<Rightarrow> nat \<Rightarrow> sched" where
  "initMyMutex s m =
     (let s1 = s\<lparr>mutexes := (mutexes s)(m := (mutexes s m)\<lparr>mvalue := 0\<rparr>)\<rparr>;
          lhead = MutexList m;
          n1 = (nodes s1)(lhead := (nodes s1 lhead)\<lparr>lnext := Some lhead\<rparr>);
          n2 = n1(lhead := (n1 lhead)\<lparr>lprev := Some lhead\<rparr>);
          n3 = n2(lhead := (n2 lhead)\<lparr>task := None\<rparr>)
      in s1\<lparr>nodes := n3\<rparr>)"

text \<open>
  The pieces of \<^verbatim>\<open>lockMutex\<close>. \<open>myNode\<close> is the address of the local \<^verbatim>\<open>myNode\<close> of this
  activation. The statements that link it into the wait list are taken in the order of
  the source: \<^verbatim>\<open>myNode.prev\<close> is read from \<^verbatim>\<open>mutex->taskList.prev\<close> after that field has
  been overwritten. A list head lives in its mutex and can always be accessed; a
  \<^verbatim>\<open>myNode\<close> can be accessed while it is in \<open>liveNodes\<close>, from the block of \<^verbatim>\<open>lockMutex\<close>
  that declares it to the end of that block.
\<close>

definition validNode :: "sched \<Rightarrow> listRef \<Rightarrow> bool" where
  "validNode s n = (case n of MutexList m \<Rightarrow> True | StackNode a \<Rightarrow> n \<in> liveNodes s)"

definition lockMutex_enqueue :: "sched \<Rightarrow> nat \<Rightarrow> listRef \<Rightarrow> sched outcome" where
  "lockMutex_enqueue s m myNode =
     (let lhead = MutexList m;
          s0 = s\<lparr>liveNodes := insert myNode (liveNodes s)\<rparr>;
          n1 = (nodes s0)(myNode := (nodes s0 myNode)\<lparr>task := currTask s0\<rparr>)
      in case lprev (n1 lhead) of
           None \<Rightarrow> Segv
         | Some p \<Rightarrow>
             if \<not> validNode s0 p then Segv
             else
               let n2 = n1(p := (n1 p)\<lparr>lnext := Some myNode\<rparr>);
                   n3 = n2(lhead := (n2 lhead)\<lparr>lprev := Some myNode\<rparr>);
                   n4 = n3(myNode := (n3 myNode)\<lparr>lprev := lprev (n3 lhead)\<rparr>);
                   n5 = n4(myNode := (n4 myNode)\<lparr>lnext := Some lhead\<rparr>)
               in Ret (s0\<lparr>nodes := n5\<rparr>))"

definition lockMutex_dequeue :: "sched \<Rightarrow> listRef \<Rightarrow> sched outcome" where
  "lockMutex_dequeue s myNode =
     (case lprev (nodes s myNode) of
        None \<Rightarrow> Segv
      | Some p \<Rightarrow>
          if \<not> validNode s p then Segv
          else
            let n1 = (nodes s)(p := (nodes s p)\<lparr>lnext := lnext (nodes s myNode)\<rparr>)
            in (case lnext (n1 myNode) of
                  None \<Rightarrow> Segv
                | Some nx \<Rightarrow>
                    if \<not> validNode s nx then Segv
                    else
                      Ret (s\<lparr>nodes := n1(nx := (n1 nx)\<lparr>lprev := lprev (n1 myNode)\<rparr>),
                             liveNodes := liveNodes s - {myNode}\<rparr>)))"

definition lockMutex_claim :: "sched \<Rightarrow> nat \<Rightarrow> sched" where
  "lockMutex_claim s m =
     (let s1 = s\<lparr>mutexes := (mutexes s)(m := (mutexes s m)\<lparr>mvalue := 1\<rparr>)\<rparr>;
          s2 = s1\<lparr>mutexes := (mutexes s1)(m := (mutexes s1 m)\<lparr>lockedBy := currTask s1\<rparr>)\<rparr>
      in unblockSched s2)"

text \<open>
  A call of \<^verbatim>\<open>lockMutex\<close> runs until it returns (\<open>Locked\<close>) or until its wait loop has
  switched the caller out (\<open>Waiting\<close>). \<open>lockMutex_wait\<close> is the test of the inner
  \<^verbatim>\<open>while\<close> followed by either the loop body up to \<^verbatim>\<open>schedule()\<close> or the code after the
  loop; \<open>lockMutex_resume\<close> is what the caller executes when it is switched in again:
  the \<^verbatim>\<open>blockSched()\<close> that ends the loop body, and the test again. The block that
  declares \<^verbatim>\<open>myNode\<close> ends right after the two statements of \<open>lockMutex_dequeue\<close>, which
  therefore also takes the node out of \<open>liveNodes\<close>.
\<close>

datatype lockProgress = Locked | Waiting

definition lockMutex_wait :: "sched \<Rightarrow> nat \<Rightarrow> listRef \<Rightarrow> (sched \<times> lockProgress) outcome option" where
  "lockMutex_wait s m myNode =
     (if mvalue (mutexes s m) \<noteq> 0 then
        (case currTask s of
           None \<Rightarrow> Some Segv
         | Some ct \<Rightarrow>
             andThen (schedule (unblockSched (setTState s ct BLOCKED)))
               (\<lambda>s1. Some (Ret (s1, Waiting))))
      else
        (case lockMutex_dequeue s myNode of
           Segv \<Rightarrow> Some Segv
         | Ret s1 \<Rightarrow> Some (Ret (lockMutex_claim s1 m, Locked))))"

definition lockMutex :: "sched \<Rightarrow> nat \<Rightarrow> listRef \<Rightarrow> (sched \<times> lockProgress) outcome option" where
  "lockMutex s m myNode =
     (let s1 = blockSched s in
      if mvalue (mutexes s1 m) \<noteq> 0 then
        (case lockMutex_enqueue s1 m myNode of
           Segv \<Rightarrow> Some Segv
         | Ret s2 \<Rightarrow> lockMutex_wait s2 m myNode)
      else Some (Ret (lockMutex_claim s1 m, Locked)))"

definition lockMutex_resume :: "sched \<Rightarrow> nat \<Rightarrow> listRef \<Rightarrow> (sched \<times> lockProgress) outcome option" where
  "lockMutex_resume s m myNode = lockMutex_wait (blockSched s) m myNode"

text \<open>\<^verbatim>\<open>tryLockMutex\<close> returns its argument or the null pointer.\<close>

definition tryLockMutex :: "sched \<Rightarrow> nat \<Rightarrow> sched \<times> nat option" where
  "tryLockMutex s m =
     (let s1 = blockSched s in
      if mvalue (mutexes s1 m) = 0 then
        (unblockSched (s1\<lparr>mutexes := (mutexes s1)(m := (mutexes s1 m)\<lparr>mvalue := 1\<rparr>)\<rparr>), Some m)
      else (unblockSched s1, None))"

text \<open>
  \<^verbatim>\<open>unlockMutex\<close>: \<^verbatim>\<open>while (nextT != &(mutex->taskList)) { nextT->task->tState = READY;
  nextT = nextT->next; }\<close>
\<close>

partial_function (option) unlockMutex_loop ::
  "sched \<Rightarrow> listRef \<Rightarrow> listRef option \<Rightarrow> sched outcome option" where
  "unlockMutex_loop s lhead nextT =
     (if nextT \<noteq> Some lhead then
        (case nextT of
           None \<Rightarrow> Some Segv
         | Some n \<Rightarrow>
             if \<not> validNode s n then Some Segv
             else
               (case task (nodes s n) of
                  None \<Rightarrow> Some Segv
                | Some t \<Rightarrow> unlockMutex_loop (setTState s t READY) lhead (lnext (nodes s n))))
      else Some (Ret s))"

definition unlockMutex :: "sched \<Rightarrow> nat \<Rightarrow> sched outcome option" where
  "unlockMutex s m =
     (let s1 = blockSched s in
      if mvalue (mutexes s1 m) \<noteq> 0 \<and> lockedBy (mutexes s1 m) = currTask s1 then
        (let s2 = s1\<lparr>mutexes := (mutexes s1)(m := (mutexes s1 m)\<lparr>mvalue := 0\<rparr>)\<rparr>
         in andThen (unlockMutex_loop s2 (MutexList m) (lnext (nodes s2 (MutexList m))))
              (\<lambda>s3. Some (Ret (unblockSched s3))))
      else Some (Ret (unblockSched s1)))"

section \<open>Notions used in the statements\<close>

text \<open>
  The Ready List as a list of addresses: \<open>readyList s xs\<close> holds when following \<^verbatim>\<open>next\<close>
  from the sentinel visits exactly the nodes \<open>xs\<close>, none of them the sentinel, and comes
  back to the sentinel. \<open>scanOrder xs cur\<close> lists \<open>xs\<close> from just past the current task
  round to the current task itself (from the front when there is no current task).
\<close>

fun task_chain :: "(taskRef \<Rightarrow> taskNode_t) \<Rightarrow> taskRef option \<Rightarrow> taskRef list \<Rightarrow> bool" where
  "task_chain h p [] = (p = Some SchedHead)"
| "task_chain h p (x # xs) = (p = Some x \<and> x \<noteq> SchedHead \<and> task_chain h (tnext (h x)) xs)"

definition readyList :: "sched \<Rightarrow> taskRef list \<Rightarrow> bool" where
  "readyList s xs = task_chain (tasks s) (tnext (tasks s SchedHead)) xs"

definition scanOrder :: "taskRef list \<Rightarrow> taskRef option \<Rightarrow> taskRef list" where
  "scanOrder xs cur =
     (case cur of
        None \<Rightarrow> xs
      | Some c \<Rightarrow> tl (dropWhile (\<lambda>x. x \<noteq> c) xs) @ takeWhile (\<lambda>x. x \<noteq> c) xs @ [c])"

text \<open>
  \<open>yields resume n s\<close> is the state in which the caller finds itself after \<open>n\<close> calls of
  \<^verbatim>\<open>schedule\<close>, each followed by its being switched in again. \<open>firstTerminal resume s t n s'\<close>
  says that \<open>s'\<close> is that state, that \<open>t\<close> is \<^verbatim>\<open>ZOMBIE\<close> in it, and that \<open>t\<close> was not
  \<^verbatim>\<open>ZOMBIE\<close> in any of the states before.
\<close>

fun yields :: "(sched \<Rightarrow> sched option) \<Rightarrow> nat \<Rightarrow> sched \<Rightarrow> sched outcome option" where
  "yields resume 0 s = Some (Ret s)"
| "yields resume (Suc n) s =
     (case schedule s of
        None \<Rightarrow> None
      | Some Segv \<Rightarrow> Some Segv
      | Some (Ret s1) \<Rightarrow> (case resume s1 of None \<Rightarrow> None | Some s2 \<Rightarrow> yields resume n s2))"


section \<open>Concrete states\<close>



definition two_tasks :: sched where
  "two_tasks =
     \<lparr>tasks =
        (\<lambda>_. zero_task)
          (SchedHead := \<lparr>tcontext = zero_ctx, tState = ALLOC, tnext = Some (Task 0), tprev = Some (Task 1)\<rparr>,
           Task 1 := \<lparr>tcontext = \<lparr>ss_sp = Some 1, ss_size = 16384, uc_link = Some CleanUpCtx,
                                     uc_sigmask = False, uc_mcontext = Call (UserFunc 1) 0 []\<rparr>,
                       tState = RUNNING, tnext = Some SchedHead, tprev = Some (Task 0)\<rparr>,
           Task 0 := \<lparr>tcontext = zero_ctx, tState = READY, tnext = Some (Task 1), tprev = Some SchedHead\<rparr>),
      currTask = Some (Task 1), mainTask = Some (Task 0),
      cleanUpCtx = \<lparr>ss_sp = Some 0, ss_size = 16384, uc_link = Some (TaskCtx (Task 0)),
                     uc_sigmask = False, uc_mcontext = Call CleanUpFunc 0 []\<rparr>,
      nodes = (\<lambda>_. \<lparr>task = None, lnext = None, lprev = None\<rparr>), liveNodes = {},
      mutexes = (\<lambda>_. \<lparr>mvalue = 0, lockedBy = None\<rparr>),
      sigBlocked = False, cpu = Call (UserFunc 1) 0 [],
      calls = [Swapcontext (TaskCtx (Task 0)) (TaskCtx (Task 1)), CallocStack 16384, CallocNode,
               CallocStack 16384, CallocNode]\<rparr>"

section \<open>Runs of the library\<close>

text \<open>
  \<open>entryReturned s t\<close>: the entry routine of \<open>t\<close> has returned, as the log of \<open>s\<close> records.
\<close>

abbreviation entryReturned :: "sched \<Rightarrow> taskRef \<Rightarrow> bool" where
  "entryReturned s t \<equiv> EntryReturn t \<in> set (calls s)"

text \<open>
  One step of the process is a call of the library by the task that is running, the return
  of its entry routine, or the arrival of \<^verbatim>\<open>SIGALRM\<close> between two such calls. The handler
  calls \<^verbatim>\<open>switchTasks\<close> and copies machine state between the signal frame and task
  contexts; the relation lets it leave any saved registers and signal masks behind
  (\<open>contextsOnly\<close>). The relation does not track which call a task is in the middle of,
  so it allows more than a program can do. What it asks for comes from C itself: a
  \<^verbatim>\<open>myNode\<close> that a call of \<^verbatim>\<open>lockMutex\<close> resumes with is live; an entry routine returns only
  when the task has no live \<^verbatim>\<open>myNode\<close>, and it returns into \<^verbatim>\<open>cleanUpFunc\<close> only for a task
  whose context names \<^verbatim>\<open>cleanUpCtx\<close> as its successor (the main task has none: when
  \<^verbatim>\<open>main\<close> returns the process ends); and \<^verbatim>\<open>calloc\<close> does not hand out the node of a task
  whose entry routine has returned, since no node is ever freed. A call that faults or does
  not return has no successor. \<open>reachable\<close> are the states that such steps lead to from
  the state \<^verbatim>\<open>taskLibInit\<close> sets up in the zeroed process image.
\<close>

definition contextsOnly :: "sched \<Rightarrow> sched \<Rightarrow> bool" where
  "contextsOnly s s' =
     (\<exists>f sb cp.
        s' = s\<lparr>tasks := (\<lambda>t. (tasks s t)\<lparr>tcontext :=
                          (tcontext (tasks s t))\<lparr>uc_sigmask := fst (f t), uc_mcontext := snd (f t)\<rparr>\<rparr>),
               sigBlocked := sb, cpu := cp\<rparr>)"

inductive step :: "sched \<Rightarrow> sched \<Rightarrow> bool" where
  yield: "schedule s = Some (Ret s') \<Longrightarrow> step s s'"
| preempt: "\<not> sigBlocked s \<Longrightarrow> switchTasks s = Some (Ret (s1, oldTask)) \<Longrightarrow> contextsOnly s1 s' \<Longrightarrow>
            step s s'"
| create: "createTask s a = (s', h) \<Longrightarrow> (\<forall>n. a = Some n \<longrightarrow> \<not> entryReturned s (Task n)) \<Longrightarrow>
           step s s'"
| init: "initTask s h func argc args stk = Some (Ret s') \<Longrightarrow> step s s'"
| mutexInit: "step s (initMyMutex s m)"
| lock: "lockMutex s m (StackNode a) = Some (Ret (s', p)) \<Longrightarrow> step s s'"
| lockResume: "StackNode a \<in> liveNodes s \<Longrightarrow>
               lockMutex_resume s m (StackNode a) = Some (Ret (s', p)) \<Longrightarrow> step s s'"
| tryLock: "tryLockMutex s m = (s', r) \<Longrightarrow> step s s'"
| unlock: "unlockMutex s m = Some (Ret s') \<Longrightarrow> step s s'"
| entryReturn: "currTask s = Some c \<Longrightarrow> uc_link (tcontext (tasks s c)) = Some CleanUpCtx \<Longrightarrow>
                \<forall>n\<in>liveNodes s. task (nodes s n) \<noteq> Some c \<Longrightarrow>
                taskReturns s = Some (Ret s') \<Longrightarrow> step s s'"






text \<open>
  Further states reached from \<open>two_tasks\<close>. In \<open>main_running\<close> the new task has yielded
  and the main task runs. In \<open>held_by_other\<close> the new task has initialised and locked
  mutex \<open>0\<close> and then yielded, so the main task runs while the other task owns the mutex.
  \<open>otherReturns c\<close> is the resumption in which the task that was switched in runs to the
  end of its entry routine and \<^verbatim>\<open>cleanUpFunc\<close> switches to \<open>c\<close>; \<open>joined\<close> is the state of
  the main task after one such round.
\<close>

definition main_running :: sched where
  "main_running = (case schedule two_tasks of Some (Ret s) \<Rightarrow> s | _ \<Rightarrow> two_tasks)"

definition held_by_other :: sched where
  "held_by_other =
     (case andThen (lockMutex (initMyMutex two_tasks 0) 0 (StackNode 0)) (\<lambda>(s, p). schedule s) of
        Some (Ret s) \<Rightarrow> s
      | _ \<Rightarrow> two_tasks)"

definition otherReturns :: "taskRef \<Rightarrow> sched \<Rightarrow> sched option" where
  "otherReturns c s =
     (case currTask s of
        None \<Rightarrow> None
      | Some ct \<Rightarrow>
          if uc_link (tcontext (tasks s ct)) = Some CleanUpCtx \<and>
             (\<forall>n\<in>liveNodes s. task (nodes s n) \<noteq> Some ct) then
            (case taskReturns s of
               Some (Ret s') \<Rightarrow> if currTask s' = Some c then Some s' else None
             | _ \<Rightarrow> None)
          else None)"

definition joined :: sched where
  "joined = (case yields (otherReturns (Task 0)) 1 main_running of
                Some (Ret s) \<Rightarrow> s | _ \<Rightarrow> main_running)"

section \<open>Unfolding the model\<close>

lemmas ctx_defs = getCtx_def putCtx_def getcontext_def swapcontext_def calloc_stack_def calloc_node_def
  zero_task_def zero_ctx_def setTState_def makecontext_def validNode_def

lemmas sched_defs = schedule_def switchTasks_def getNextTask_def andThen_def listGetNext_def
     getNextTask_loop.simps listGetNext_loop.simps blockSched_def unblockSched_def

lemmas mutex_defs = initMyMutex_def lockMutex_def lockMutex_wait_def lockMutex_enqueue_def
  lockMutex_dequeue_def lockMutex_claim_def lockMutex_resume_def tryLockMutex_def unlockMutex_def
  unlockMutex_loop.simps

lemmas state_defs = two_tasks_def main_running_def held_by_other_def joined_def otherReturns_def
  cleanUpFunc_def listRemove_def taskReturns_def




lemma held_by_other_reached:
  "andThen (lockMutex (initMyMutex two_tasks 0) 0 (StackNode 0)) (\<lambda>(s, p). schedule s) =
   Some (Ret held_by_other)"
  by (simp add: state_defs ctx_defs sched_defs mutex_defs Let_def)


section \<open>Selection of the next task\<close>

lemma listGetNext_step:
  "tnext (h p) = Some y \<Longrightarrow> y \<noteq> SchedHead \<Longrightarrow> listGetNext h SchedHead (Some p) = Some (Ret (Some y))"
  unfolding listGetNext_def by (subst listGetNext_loop.simps) simp

lemma getNextTask_loop_wrap:
  "tnext (h p) = Some SchedHead \<Longrightarrow> getNextTask_loop h (Some p) = getNextTask_loop h (Some SchedHead)"
  apply (subst getNextTask_loop.simps)
  apply (subst (2) getNextTask_loop.simps)
  apply (simp add: listGetNext_def)
  apply (subst listGetNext_loop.simps)
  apply simp
  done

lemma getNextTask_loop_chain:
  "task_chain h (tnext (h p)) ys \<Longrightarrow> List.find (runnable h) ys = Some t \<Longrightarrow>
   getNextTask_loop h (Some p) = Some (Ret t)"
proof (induction ys arbitrary: p)
  case Nil
  then show ?case by simp
next
  case (Cons y ys)
  from Cons.prems have nx: "tnext (h p) = Some y" and ny: "y \<noteq> SchedHead"
    and ch: "task_chain h (tnext (h y)) ys" by simp_all
  have step: "listGetNext h SchedHead (Some p) = Some (Ret (Some y))"
    using nx ny by (rule listGetNext_step)
  show ?case
  proof (cases "runnable h y")
    case True
    with Cons.prems have "t = y" by simp
    have "runnable h t" using True \<open>t = y\<close> by simp
    then show ?thesis
      apply (subst getNextTask_loop.simps)
      apply (simp only: step \<open>t = y\<close>)
      apply (simp add: runnable_def)
      apply blast
      done
  next
    case False
    with Cons.prems have "List.find (runnable h) ys = Some t" by simp
    with ch have "getNextTask_loop h (Some y) = Some (Ret t)" by (rule Cons.IH)
    moreover have "getNextTask_loop h (Some p) = getNextTask_loop h (Some y)"
      apply (subst getNextTask_loop.simps)
      apply (simp only: step)
      using False apply (simp add: runnable_def)
      done
    ultimately show ?thesis by simp
  qed
qed

lemma getNextTask_loop_skip:
  "task_chain h (tnext (h p)) ys \<Longrightarrow> List.find (runnable h) ys = None \<Longrightarrow>
   getNextTask_loop h (Some p) = getNextTask_loop h (Some SchedHead)"
proof (induction ys arbitrary: p)
  case Nil
  then show ?case by (simp add: getNextTask_loop_wrap)
next
  case (Cons y ys)
  from Cons.prems have nx: "tnext (h p) = Some y" and ny: "y \<noteq> SchedHead"
    and ch: "task_chain h (tnext (h y)) ys" and nr: "\<not> runnable h y"
    and rest: "List.find (runnable h) ys = None" by (simp_all split: if_splits)
  have step: "listGetNext h SchedHead (Some p) = Some (Ret (Some y))"
    using nx ny by (rule listGetNext_step)
  have "getNextTask_loop h (Some p) = getNextTask_loop h (Some y)"
    apply (subst getNextTask_loop.simps)
    apply (simp only: step)
    using nr apply (simp add: runnable_def)
    done
  also have "\<dots> = getNextTask_loop h (Some SchedHead)" using ch rest by (rule Cons.IH)
  finally show ?case .
qed

lemma task_chain_append:
  "task_chain h p (as @ c # bs) \<Longrightarrow> task_chain h (tnext (h c)) bs"
  by (induction as arbitrary: p) auto

lemma split_at_member:
  "c \<in> set xs \<Longrightarrow> xs = takeWhile (\<lambda>x. x \<noteq> c) xs @ c # tl (dropWhile (\<lambda>x. x \<noteq> c) xs)"
  by (induction xs) auto

lemma find_append:
  "List.find P (as @ bs) = (case List.find P as of None \<Rightarrow> List.find P bs | Some a \<Rightarrow> Some a)"
  by (induction as) auto

lemma find_exists: "\<exists>t\<in>set xs. P t \<Longrightarrow> \<exists>t. List.find P xs = Some t"
  by (induction xs) auto

text \<open>
  C5. When the Ready List holds at least one task that is \<^verbatim>\<open>READY\<close> or \<^verbatim>\<open>RUNNING\<close> and the
  current task is one of its members (or there is no current task), \<^verbatim>\<open>getNextTask\<close>
  returns, and what it returns is the first such task in the order that starts just past
  the current position and wraps around; the sentinel is not a member of that order and
  the tasks before the result in it are in neither of the two states. \<^verbatim>\<open>getNextTask\<close> writes
  nothing, so every task stays linked.
\<close>

theorem getNextTask_first_runnable:
  assumes rl: "readyList s xs"
    and ex: "\<exists>t\<in>set xs. runnable (tasks s) t"
    and cur: "currTask s = None \<or> (\<exists>c\<in>set xs. currTask s = Some c)"
  shows "\<exists>t. List.find (runnable (tasks s)) (scanOrder xs (currTask s)) = Some t \<and>
             getNextTask s = Some (Ret t)"
proof -
  let ?h = "tasks s"
  from find_exists[OF ex] obtain t0 where t0: "List.find (runnable ?h) xs = Some t0" ..
  from rl have ring: "task_chain ?h (tnext (?h SchedHead)) xs" by (simp add: readyList_def)
  have fromHead: "getNextTask_loop ?h (Some SchedHead) = Some (Ret t0)"
    using ring t0 by (rule getNextTask_loop_chain)
  from cur show ?thesis
  proof
    assume "currTask s = None"
    with fromHead t0 show ?thesis by (simp add: getNextTask_def scanOrder_def)
  next
    assume "\<exists>c\<in>set xs. currTask s = Some c"
    then obtain c where c: "c \<in> set xs" "currTask s = Some c" by blast
    define pre where "pre = takeWhile (\<lambda>x. x \<noteq> c) xs"
    define post where "post = tl (dropWhile (\<lambda>x. x \<noteq> c) xs)"
    have xs: "xs = pre @ c # post"
      unfolding pre_def post_def using c(1) by (rule split_at_member)
    have so: "scanOrder xs (currTask s) = post @ pre @ [c]"
      by (simp add: scanOrder_def c(2) pre_def post_def)
    have "task_chain ?h (tnext (?h SchedHead)) (pre @ c # post)" using ring xs by simp
    then have post: "task_chain ?h (tnext (?h c)) post" by (rule task_chain_append)
    have gn: "getNextTask s = getNextTask_loop ?h (Some c)" using c(2) by (simp add: getNextTask_def)
    show ?thesis
    proof (cases "List.find (runnable ?h) post")
      case (Some t)
      with post have "getNextTask_loop ?h (Some c) = Some (Ret t)" by (rule getNextTask_loop_chain)
      with Some gn show ?thesis by (simp add: so find_append)
    next
      case None
      with post have "getNextTask_loop ?h (Some c) = getNextTask_loop ?h (Some SchedHead)"
        by (rule getNextTask_loop_skip)
      with fromHead gn have r: "getNextTask s = Some (Ret t0)" by simp
      have "List.find (runnable ?h) (pre @ c # post) = Some t0" using t0 xs by simp
      with None have "List.find (runnable ?h) (pre @ [c]) = Some t0"
        by (simp add: find_append split: option.splits if_splits)
      with None r show ?thesis by (simp add: so find_append)
    qed
  qed
qed

text \<open>
  An instance: in \<open>two_tasks\<close> with the main task \<^verbatim>\<open>BLOCKED\<close>, the scan from the running
  \<open>Task 1\<close> passes the sentinel, skips \<open>Task 0\<close> and comes round to \<open>Task 1\<close>.
\<close>

theorem getNextTask_first_runnable_witness:
  "readyList (setTState two_tasks (Task 0) BLOCKED) [Task 0, Task 1] \<and>
   (\<exists>t\<in>set [Task 0, Task 1]. runnable (tasks (setTState two_tasks (Task 0) BLOCKED)) t) \<and>
   currTask (setTState two_tasks (Task 0) BLOCKED) = Some (Task 1) \<and>
   scanOrder [Task 0, Task 1] (Some (Task 1)) = [Task 0, Task 1] \<and>
   getNextTask (setTState two_tasks (Task 0) BLOCKED) = Some (Ret (Task 1))"
proof -
  let ?s = "setTState two_tasks (Task 0) BLOCKED"
  have rl: "readyList ?s [Task 0, Task 1]"
    by (simp add: readyList_def two_tasks_def setTState_def)
  have ex: "\<exists>t\<in>set [Task 0, Task 1]. runnable (tasks ?s) t"
    by (simp add: runnable_def two_tasks_def setTState_def)
  have cur: "currTask ?s = Some (Task 1)" by (simp add: two_tasks_def setTState_def)
  then have cur': "currTask ?s = None \<or> (\<exists>c\<in>set [Task 0, Task 1]. currTask ?s = Some c)" by simp
  have so: "scanOrder [Task 0, Task 1] (Some (Task 1)) = [Task 0, Task 1]"
    by (simp add: scanOrder_def)
  have fi: "List.find (runnable (tasks ?s)) [Task 0, Task 1] = Some (Task 1)"
    by (simp add: runnable_def two_tasks_def setTState_def)
  from getNextTask_first_runnable[OF rl ex cur'] cur so fi
  have "getNextTask ?s = Some (Ret (Task 1))" by simp
  with rl ex cur so show ?thesis by blast
qed

section \<open>Release of a mutex\<close>

lemma nodes_setTState [simp]: "nodes (setTState s t st) = nodes s"
  by (simp add: setTState_def)

lemma mutexes_setTState [simp]: "mutexes (setTState s t st) = mutexes s"
  by (simp add: setTState_def)

lemma currTask_setTState [simp]: "currTask (setTState s t st) = currTask s"
  by (simp add: setTState_def)

lemma tState_setTState [simp]:
  "tState (tasks (setTState s t st) u) = (if u = t then st else tState (tasks s u))"
  by (simp add: setTState_def)

text \<open>
  Since \<^verbatim>\<open>myNode.prev\<close> is assigned from \<^verbatim>\<open>mutex->taskList.prev\<close> after that field has been
  set to \<^verbatim>\<open>&myNode\<close>, a node points back at itself, and the two statements that take it out
  of the list when the caller has acquired the mutex leave every \<^verbatim>\<open>next\<close> link as it was:
  the node stays reachable from the list head after its lifetime has ended.
\<close>

lemma lockMutex_enqueue_self_prev:
  "lockMutex_enqueue s m myNode = Ret s1 \<Longrightarrow> myNode \<noteq> MutexList m \<Longrightarrow>
   lprev (nodes s1 myNode) = Some myNode \<and> lnext (nodes s1 myNode) = Some (MutexList m) \<and>
   myNode \<in> liveNodes s1"
  by (auto simp: lockMutex_enqueue_def Let_def split: option.splits if_splits)

lemma lockMutex_dequeue_keeps_forward_links:
  assumes enq: "lockMutex_enqueue s m myNode = Ret s1" and nh: "myNode \<noteq> MutexList m"
  shows "\<exists>s2. lockMutex_dequeue s1 myNode = Ret s2 \<and> (\<forall>n. lnext (nodes s2 n) = lnext (nodes s1 n)) \<and>
              myNode \<notin> liveNodes s2"
proof -
  from lockMutex_enqueue_self_prev[OF enq nh]
  have "lprev (nodes s1 myNode) = Some myNode" "lnext (nodes s1 myNode) = Some (MutexList m)"
    "myNode \<in> liveNodes s1"
    by simp_all
  then show ?thesis using nh
    by (cases myNode) (simp_all add: lockMutex_dequeue_def validNode_def Let_def)
qed

text \<open>
  C7. When the caller of \<^verbatim>\<open>unlockMutex\<close> is not the task recorded in \<^verbatim>\<open>lockedBy\<close>, the call
  returns and changes nothing but the signal mask, which it leaves unblocked: the held
  flag, the owner, the wait list and the state of every task are as before.
\<close>

theorem unlockMutex_not_owner:
  "lockedBy (mutexes s m) \<noteq> currTask s \<Longrightarrow> unlockMutex s m = Some (Ret (s\<lparr>sigBlocked := False\<rparr>))"
  by (simp add: unlockMutex_def blockSched_def unblockSched_def)

text \<open>
  An instance: the main task calls \<^verbatim>\<open>unlockMutex\<close> on the mutex that \<open>Task 1\<close> holds.
\<close>

theorem unlockMutex_not_owner_witness:
  "mvalue (mutexes held_by_other 0) = 1 \<and> lockedBy (mutexes held_by_other 0) = Some (Task 1) \<and>
   currTask held_by_other = Some (Task 0) \<and>
   unlockMutex held_by_other 0 = Some (Ret (held_by_other\<lparr>sigBlocked := False\<rparr>))"
proof -
  have f: "mvalue (mutexes held_by_other 0) = 1" "lockedBy (mutexes held_by_other 0) = Some (Task 1)"
    "currTask held_by_other = Some (Task 0)"
    by (simp_all add: state_defs ctx_defs sched_defs mutex_defs Let_def)
  then have "lockedBy (mutexes held_by_other 0) \<noteq> currTask held_by_other" by simp
  from unlockMutex_not_owner[OF this] f show ?thesis by simp
qed

section \<open>Non-blocking acquisition\<close>

text \<open>
  C8. \<^verbatim>\<open>tryLockMutex\<close> always returns, and it leaves the task nodes (so the state of the
  caller), the wait-list nodes, the current task and the log of context switches as they
  were: it neither enqueues the caller nor calls \<^verbatim>\<open>schedule\<close>. On a free mutex it sets
  the held flag and returns the mutex; on a held mutex it returns the null pointer and
  leaves the mutex as it was. It does not write \<^verbatim>\<open>lockedBy\<close> in either case.
\<close>

theorem tryLockMutex_nonblocking:
  "\<exists>s' r. tryLockMutex s m = (s', r) \<and>
          tasks s' = tasks s \<and> nodes s' = nodes s \<and> currTask s' = currTask s \<and>
          calls s' = calls s \<and> lockedBy (mutexes s' m) = lockedBy (mutexes s m) \<and>
          (mvalue (mutexes s m) = 0 \<longrightarrow> r = Some m \<and> mvalue (mutexes s' m) = 1) \<and>
          (mvalue (mutexes s m) \<noteq> 0 \<longrightarrow> r = None \<and> mutexes s' = mutexes s)"
  by (cases "mvalue (mutexes s m) = 0")
     (simp_all add: tryLockMutex_def blockSched_def unblockSched_def Let_def)

text \<open>
  Instances: the main task tries the mutex that \<open>Task 1\<close> holds, and \<open>Task 1\<close> tries a
  free mutex.
\<close>

theorem tryLockMutex_nonblocking_witness:
  "mvalue (mutexes held_by_other 0) \<noteq> 0 \<and>
   tryLockMutex held_by_other 0 = (held_by_other\<lparr>sigBlocked := False\<rparr>, None) \<and>
   mvalue (mutexes two_tasks 0) = 0 \<and>
   (\<exists>s'. tryLockMutex two_tasks 0 = (s', Some 0) \<and> mvalue (mutexes s' 0) = 1 \<and>
         tasks s' = tasks two_tasks \<and> nodes s' = nodes two_tasks \<and> calls s' = calls two_tasks)"
proof -
  have h: "mvalue (mutexes held_by_other 0) \<noteq> 0"
    by (simp add: state_defs ctx_defs sched_defs mutex_defs Let_def)
  have e: "tryLockMutex held_by_other 0 = (held_by_other\<lparr>sigBlocked := False\<rparr>, None)"
    using h by (simp add: tryLockMutex_def blockSched_def unblockSched_def)
  have fr: "mvalue (mutexes two_tasks 0) = 0" by (simp add: two_tasks_def)
  from tryLockMutex_nonblocking[of two_tasks 0] fr
  have "\<exists>s'. tryLockMutex two_tasks 0 = (s', Some 0) \<and> mvalue (mutexes s' 0) = 1 \<and>
         tasks s' = tasks two_tasks \<and> nodes s' = nodes two_tasks \<and> calls s' = calls two_tasks"
    by auto
  moreover from tryLockMutex_nonblocking[of held_by_other 0] h
  have "\<exists>s'. tryLockMutex held_by_other 0 = (s', None)" by auto
  ultimately show ?thesis using h e fr by simp
qed

section \<open>Joining a task\<close>

lemma schedule_writes_no_zombie:
  "schedule s = Some (Ret s') \<Longrightarrow> tState (tasks s' t) = ZOMBIE \<Longrightarrow> tState (tasks s t) = ZOMBIE"
  by (auto simp: schedule_def switchTasks_def andThen_def Let_def setTState_def swapcontext_def
      getcontext_def putCtx_def getCtx_def
      split: option.splits outcome.splits if_splits ctxRef.splits)

lemma listRemove_tState:
  "listRemove s h n = Ret s' \<Longrightarrow> tState (tasks s' t) = tState (tasks s t) \<and> currTask s' = currTask s"
  by (auto simp: listRemove_def Let_def split: option.splits if_splits)

lemma cleanUpFunc_marks_zombie:
  "cleanUpFunc s = Some (Ret s') \<Longrightarrow> currTask s = Some t \<Longrightarrow> tState (tasks s' t) = ZOMBIE"
  by (auto simp: cleanUpFunc_def andThen_def Let_def setTState_def swapcontext_def
      getcontext_def putCtx_def getCtx_def dest!: listRemove_tState
      split: option.splits outcome.splits if_splits)






subsection \<open>What every reachable state satisfies\<close>






















lemma tState_putCtx [simp]: "tState (tasks (putCtx s c u) t) = tState (tasks s t)"
  by (simp add: putCtx_def split: ctxRef.splits)

lemma calls_putCtx [simp]: "calls (putCtx s c u) = calls s"
  by (simp add: putCtx_def split: ctxRef.splits)

















subsection \<open>The log only grows\<close>



















text \<open>
  C10. With a null handle \<^verbatim>\<open>taskJoin\<close> returns at once and leaves the whole state,
  the log of context switches included, as it was.
\<close>

theorem taskJoin_null: "taskJoin resume s None = Some (Ret s)"
  by (simp add: taskJoin_def)

section \<open>Starting a task\<close>

lemma listAdd_links:
  "listAdd s SchedHead t = Ret s' \<Longrightarrow>
   tnext (tasks s' t) = Some SchedHead \<and> tprev (tasks s' SchedHead) = Some t \<and>
   (\<forall>u. tState (tasks s' u) = tState (tasks s u) \<and> tcontext (tasks s' u) = tcontext (tasks s u)) \<and>
   calls s' = calls s"
  by (auto simp: listAdd_def Let_def split: option.splits)

lemma schedule_effect:
  "schedule s = Some (Ret s') \<Longrightarrow>
   (\<exists>a b. calls s' = Swapcontext a b # calls s) \<and>
   (\<forall>u. tnext (tasks s' u) = tnext (tasks s u) \<and> tprev (tasks s' u) = tprev (tasks s u) \<and>
        uc_link (tcontext (tasks s' u)) = uc_link (tcontext (tasks s u)) \<and>
        ss_sp (tcontext (tasks s' u)) = ss_sp (tcontext (tasks s u)) \<and>
        ss_size (tcontext (tasks s' u)) = ss_size (tcontext (tasks s u)) \<and>
        (runnable (tasks s) u \<longrightarrow> runnable (tasks s') u))"
  by (auto simp: schedule_def switchTasks_def andThen_def Let_def setTState_def swapcontext_def
      getcontext_def putCtx_def getCtx_def runnable_def
      split: option.splits outcome.splits if_splits)

lemma initTask_alloc:
  assumes al: "tState (tasks s t) = ALLOC"
    and ret: "initTask s (Some t) func argc args stk = Some (Ret s')"
  shows "(\<exists>a b. calls s' = Swapcontext a b # CallocStack 16384 # calls s) \<and>
         runnable (tasks s') t \<and>
         tnext (tasks s' t) = Some SchedHead \<and> tprev (tasks s' SchedHead) = Some t \<and>
         uc_link (tcontext (tasks s' t)) = Some CleanUpCtx \<and>
         ss_sp (tcontext (tasks s' t)) = stk \<and> ss_size (tcontext (tasks s' t)) = 16384"
  using ret al unfolding initTask_def Let_def
  apply (simp split: outcome.splits)
  apply (drule listAdd_links)
  apply (drule schedule_effect)
  apply (auto simp: ctx_defs runnable_def split: option.splits)
  done

text \<open>
  C9. \<^verbatim>\<open>initTask\<close> on a handle whose state is not \<^verbatim>\<open>ALLOC\<close> returns the state it was
  given: the state and the context of the task, the links of the Ready List, the current
  task and the log of calls to \<^verbatim>\<open>calloc\<close> and \<^verbatim>\<open>swapcontext\<close> are unchanged. (By
  \<open>initTask_alloc\<close> the initialisation does take place on an \<^verbatim>\<open>ALLOC\<close> handle.)
\<close>

theorem initTask_not_alloc:
  "tState (tasks s t) \<noteq> ALLOC \<Longrightarrow> initTask s (Some t) func argc args stk = Some (Ret s)"
  by (simp add: initTask_def)

text \<open>An instance: \<^verbatim>\<open>initTask\<close> on the running \<open>Task 1\<close>.\<close>

theorem initTask_not_alloc_witness:
  "tState (tasks two_tasks (Task 1)) \<noteq> ALLOC \<and>
   initTask two_tasks (Some (Task 1)) (UserFunc 2) 0 [] (Some 2) = Some (Ret two_tasks)"
proof -
  have "tState (tasks two_tasks (Task 1)) \<noteq> ALLOC" by (simp add: two_tasks_def)
  from initTask_not_alloc[OF this] this show ?thesis by simp
qed


section \<open>Behaviour that departs from the description\<close>

text \<open>
  Whenever \<^verbatim>\<open>switchTasks\<close> returns, the task it returns is the one that was current, and
  unless that task was selected again its state is \<^verbatim>\<open>READY\<close>, whatever it was before.
\<close>

lemma switchTasks_old_task:
  "switchTasks s = Some (Ret (s', ot)) \<Longrightarrow>
   currTask s = Some ot \<and> (currTask s' = Some ot \<or> tState (tasks s' ot) = READY)"
  by (cases "currTask s' = Some ot")
     (auto simp: switchTasks_def andThen_def Let_def setTState_def
       split: option.splits outcome.splits)


text \<open>
  C1. The running task \<open>Task 1\<close> of \<open>two_tasks\<close> marks itself \<^verbatim>\<open>BLOCKED\<close>, as the wait loop
  of \<^verbatim>\<open>lockMutex\<close> does, and \<^verbatim>\<open>switchTasks\<close> is called. It returns \<open>Task 1\<close> as the
  previous task, selects \<open>Task 0\<close> and marks it \<^verbatim>\<open>RUNNING\<close>, but the state of \<open>Task 1\<close>
  is now \<^verbatim>\<open>READY\<close>: \<^verbatim>\<open>oldTask->tState = READY\<close> is not guarded.
\<close>

theorem switchTasks_overwrites_blocked:
  "andThen (switchTasks (setTState two_tasks (Task 1) BLOCKED))
     (\<lambda>(s, oldTask). Some (Ret (oldTask, tState (tasks s oldTask), currTask s,
                                 tState (tasks s (Task 0))))) =
   Some (Ret (Task 1, READY, Some (Task 0), RUNNING))"
  by (simp add: two_tasks_def ctx_defs sched_defs Let_def)

text \<open>
  C4. \<open>Task 1\<close> locks mutex \<open>0\<close> and yields; \<open>Task 0\<close> calls \<^verbatim>\<open>lockMutex\<close>, waits, and is
  woken when \<open>Task 1\<close> unlocks; switched in again it acquires the mutex and \<^verbatim>\<open>lockMutex\<close>
  returns. Its \<^verbatim>\<open>myNode\<close> is then dead but still the first node of the wait list, so when
  \<open>Task 0\<close>, the owner, calls \<^verbatim>\<open>unlockMutex\<close>, the walk over the wait list reads it and the
  call faults instead of returning.
\<close>

theorem unlockMutex_walks_dead_node:
  "andThen (lockMutex (initMyMutex two_tasks 0) 0 (StackNode 0)) (\<lambda>(s1, p1).
     andThen (schedule s1) (\<lambda>s2.
       andThen (lockMutex s2 0 (StackNode 1)) (\<lambda>(s3, p2).
         andThen (unlockMutex s3 0) (\<lambda>s4.
           andThen (schedule s4) (\<lambda>s5.
             andThen (lockMutex_resume s5 0 (StackNode 1)) (\<lambda>(s6, p3).
               Some (Ret (p1, p2, tState (tasks s4 (Task 0)), p3, currTask s6,
                          mvalue (mutexes s6 0), lockedBy (mutexes s6 0),
                          lnext (nodes s6 (MutexList 0)), StackNode 1 \<in> liveNodes s6,
                          unlockMutex s6 0)))))))) =
   Some (Ret (Locked, Waiting, READY, Locked, Some (Task 0), 1, Some (Task 0),
              Some (StackNode 1), False, Some Segv))"
  by (simp add: two_tasks_def ctx_defs sched_defs mutex_defs Let_def)

text \<open>
  C2. \<open>Task 1\<close> locks and unlocks mutex \<open>0\<close> and yields; \<open>Task 0\<close> then acquires the mutex
  with \<^verbatim>\<open>tryLockMutex\<close>. The mutex is held, but \<^verbatim>\<open>lockedBy\<close> still names \<open>Task 1\<close>:
  \<^verbatim>\<open>tryLockMutex\<close> does not assign it.
\<close>

theorem tryLockMutex_leaves_stale_owner:
  "andThen (lockMutex (initMyMutex two_tasks 0) 0 (StackNode 0)) (\<lambda>(s1, p1).
     andThen (unlockMutex s1 0) (\<lambda>s2.
       andThen (schedule s2) (\<lambda>s3.
         case tryLockMutex s3 0 of
           (s4, r) \<Rightarrow>
             Some (Ret (p1, r, mvalue (mutexes s4 0), lockedBy (mutexes s4 0), currTask s4))))) =
   Some (Ret (Locked, Some 0, 1, Some (Task 1), Some (Task 0)))"
  by (simp add: two_tasks_def ctx_defs sched_defs mutex_defs Let_def)

text \<open>
  C3. \<open>Task 1\<close> locks mutex \<open>0\<close> and calls \<^verbatim>\<open>lockMutex\<close> on it again. The second call
  switches to \<open>Task 0\<close> and leaves \<open>Task 1\<close> \<^verbatim>\<open>READY\<close>; at the next scheduling point
  \<open>Task 1\<close> is selected and \<^verbatim>\<open>RUNNING\<close> again, and its wait loop goes round once more.
\<close>

theorem relocking_task_runs_again:
  "andThen (lockMutex (initMyMutex two_tasks 0) 0 (StackNode 0)) (\<lambda>(s1, p1).
     andThen (lockMutex s1 0 (StackNode 1)) (\<lambda>(s2, p2).
       andThen (schedule s2) (\<lambda>s3.
         andThen (lockMutex_resume s3 0 (StackNode 1)) (\<lambda>(s4, p3).
           Some (Ret (p1, p2, currTask s2, tState (tasks s2 (Task 1)),
                      currTask s3, tState (tasks s3 (Task 1)), p3)))))) =
   Some (Ret (Locked, Waiting, Some (Task 0), READY, Some (Task 1), RUNNING, Waiting))"
  by (simp add: two_tasks_def ctx_defs sched_defs mutex_defs Let_def)

end
